theory Spec2Isabelle
  imports Main "HOL-Library.AList" "HOL-Library.Sublist"
begin

section \<open>Strings\<close>

text \<open>
  A JavaScript string is a sequence of UTF-16 code units. The model uses \<open>string\<close>, whose
  characters are the code units below 256 (Latin-1), one \<open>char\<close> per code unit, so that
  \<open>length\<close> is the JavaScript \<open>length\<close>. \<open>toLowerCase\<close> maps A-Z and the Latin-1 capitals
  (U+00C0 to U+00DE without the multiplication sign U+00D7) 32 places up and leaves
  every other code unit below 256 as it is.
\<close>

definition toLowerCase_char :: "char \<Rightarrow> char" where
  "toLowerCase_char c =
     (let n = (of_char c :: nat)
      in if (65 \<le> n \<and> n \<le> 90) \<or> (192 \<le> n \<and> n \<le> 214) \<or> (216 \<le> n \<and> n \<le> 222)
         then char_of (n + 32) else c)"

definition toLowerCase :: "string \<Rightarrow> string" where
  "toLowerCase s = map toLowerCase_char s"

text \<open>
  \<open>s.split(sep)\<close> for a one-character separator: the pieces between the separators, a
  single empty piece for the empty string. \<open>split_from\<close> carries the piece being read.
\<close>

fun split_from :: "char \<Rightarrow> string \<Rightarrow> string \<Rightarrow> string list" where
  "split_from sep cur [] = [cur]"
| "split_from sep cur (c # cs) =
     (if c = sep then cur # split_from sep [] cs else split_from sep (cur @ [c]) cs)"

definition split :: "char \<Rightarrow> string \<Rightarrow> string list" where
  "split sep s = split_from sep [] s"

text \<open>\<open>parts.join(sep)\<close>.\<close>

fun join :: "string \<Rightarrow> string list \<Rightarrow> string" where
  "join sep [] = []"
| "join sep [p] = p"
| "join sep (p # q # ps) = p @ sep @ join sep (q # ps)"

text \<open>\<open>xs.slice(-n)\<close>: the last \<open>n\<close> elements, all of them when there are fewer.\<close>

definition slice_last :: "nat \<Rightarrow> 'a list \<Rightarrow> 'a list" where
  "slice_last n xs = drop (length xs - n) xs"

text \<open>\<open>xs.some(p)\<close>.\<close>

fun some :: "('a \<Rightarrow> bool) \<Rightarrow> 'a list \<Rightarrow> bool" where
  "some p [] = False"
| "some p (x # xs) = (if p x then True else some p xs)"

text \<open>\<open>xs.findIndex(p)\<close>; the JavaScript result -1 is \<open>None\<close>.\<close>

fun findIndex :: "('a \<Rightarrow> bool) \<Rightarrow> 'a list \<Rightarrow> nat option" where
  "findIndex p [] = None"
| "findIndex p (x # xs) =
     (if p x then Some 0 else (case findIndex p xs of None \<Rightarrow> None | Some i \<Rightarrow> Some (Suc i)))"

section \<open>Domain normalizer\<close>

text \<open>\<open>s.replace(/^www\./, '')\<close>: a leading \<open>www.\<close> is removed, once.\<close>

definition strip_www :: "string \<Rightarrow> string" where
  "strip_www s = (if take 4 s = ''www.'' then drop 4 s else s)"

text \<open>
  The body shared by \<open>DomainUtils.getRootDomain\<close> (gmailExtractor.ts) and \<open>getRootDomain\<close>
  (background.ts); the two differ in the set of two-label suffixes only, which is the
  parameter \<open>tlds\<close>.
\<close>

definition rootDomain :: "string list \<Rightarrow> string \<Rightarrow> string" where
  "rootDomain tlds domain =
     (if domain = [] then domain
      else
        let cleanDomain = strip_www (toLowerCase domain);
            parts = split (CHR ''.'') cleanDomain
        in if length parts \<le> 2 then cleanDomain
           else
             let potentialTld = join ''.'' (slice_last 2 parts)
             in if potentialTld \<in> set tlds then join ''.'' (slice_last 3 parts)
                else join ''.'' (slice_last 2 parts))"

definition SEPARATE_TLDS :: "string list" where
  "SEPARATE_TLDS =
     [''co.uk'', ''co.jp'', ''co.kr'', ''com.au'', ''co.nz'', ''co.za'', ''com.br'', ''com.mx'',
      ''co.in'', ''co.ca'', ''com.sg'', ''com.hk'', ''co.th'', ''com.tw'', ''com.tr'', ''com.ar'',
      ''com.co'', ''com.pe'', ''com.ve'', ''com.ec'', ''com.uy'', ''com.py'', ''com.bo'', ''com.gt'',
      ''com.sv'', ''com.hn'', ''com.ni'', ''com.cr'', ''com.pa'', ''com.do'', ''com.pr'', ''com.jm'',
      ''com.tt'', ''com.bb'', ''com.lc'', ''com.vc'', ''com.gd'', ''com.ag'', ''com.dm'', ''com.kn'',
      ''com.ms'', ''com.vc'', ''com.ai'', ''com.vg'', ''com.bm'', ''com.ky'', ''com.tc'', ''com.fk'']"

definition separateTlds :: "string list" where
  "separateTlds =
     [''co.uk'', ''co.jp'', ''co.kr'', ''com.au'', ''co.nz'', ''co.za'', ''com.br'', ''com.mx'',
      ''co.in'', ''co.ca'', ''com.sg'', ''com.hk'', ''co.th'', ''com.tw'', ''com.tr'', ''com.ar'']"

text \<open>\<open>DomainUtils.getRootDomain\<close> of gmailExtractor.ts.\<close>

definition DomainUtils_getRootDomain :: "string \<Rightarrow> string" where
  "DomainUtils_getRootDomain domain = rootDomain SEPARATE_TLDS domain"

text \<open>\<open>getRootDomain\<close> of background.ts.\<close>

definition getRootDomain :: "string \<Rightarrow> string" where
  "getRootDomain domain = rootDomain separateTlds domain"

section \<open>Regular expressions of the email validator\<close>

text \<open>
  The patterns of \<open>isValidEmail\<close> are sequences of literal text and of repeated character
  classes, with optional anchors. \<open>Lit w\<close> is the text \<open>w\<close>; \<open>Rep n cls\<close> is \<open>n\<close> or more
  characters of the class \<open>cls\<close> (\<open>+\<close> is \<open>Rep 1\<close>, \<open>*\<close> is \<open>Rep 0\<close>, \<open>{n,}\<close> is \<open>Rep n\<close>).
  \<open>Regex a atoms e\<close> is anchored at the start when \<open>a\<close> holds and at the end when \<open>e\<close>
  holds.
\<close>

datatype atom = Lit string | Rep nat "char \<Rightarrow> bool"

datatype regex = Regex bool "atom list" bool

text \<open>
  \<open>rep_rests n cls s\<close>: what is left of \<open>s\<close> after each way of reading \<open>n\<close> or more
  leading characters of the class.
\<close>

fun rep_rests :: "nat \<Rightarrow> (char \<Rightarrow> bool) \<Rightarrow> string \<Rightarrow> string list" where
  "rep_rests n cls [] = (if n = 0 then [[]] else [])"
| "rep_rests n cls (c # cs) =
     (if n = 0 then [c # cs] else []) @ (if cls c then rep_rests (n - 1) cls cs else [])"

text \<open>
  \<open>match_here atoms to_end s\<close>: the atoms match a prefix of \<open>s\<close>, the whole of \<open>s\<close> when
  \<open>to_end\<close> holds.
\<close>

fun match_here :: "atom list \<Rightarrow> bool \<Rightarrow> string \<Rightarrow> bool" where
  "match_here [] to_end s = (if to_end then s = [] else True)"
| "match_here (Lit w # atoms) to_end s =
     (if take (length w) s = w then match_here atoms to_end (drop (length w) s) else False)"
| "match_here (Rep n cls # atoms) to_end s =
     some (\<lambda>rest. match_here atoms to_end rest) (rep_rests n cls s)"

text \<open>A match starting at some position of \<open>s\<close>.\<close>

fun search :: "atom list \<Rightarrow> bool \<Rightarrow> string \<Rightarrow> bool" where
  "search atoms to_end [] = match_here atoms to_end []"
| "search atoms to_end (c # cs) =
     (if match_here atoms to_end (c # cs) then True else search atoms to_end cs)"

text \<open>\<open>pattern.test(s)\<close>.\<close>

fun test :: "regex \<Rightarrow> string \<Rightarrow> bool" where
  "test (Regex anchored atoms to_end) s =
     (if anchored then match_here atoms to_end s else search atoms to_end s)"

definition in_range :: "nat \<Rightarrow> nat \<Rightarrow> char \<Rightarrow> bool" where
  "in_range lo hi c = (lo \<le> (of_char c :: nat) \<and> (of_char c :: nat) \<le> hi)"

text \<open>\<open>[a-zA-Z]\<close>\<close>
definition cls_alpha :: "char \<Rightarrow> bool" where
  "cls_alpha c = (in_range 97 122 c \<or> in_range 65 90 c)"

text \<open>\<open>\d\<close>\<close>
definition cls_digit :: "char \<Rightarrow> bool" where
  "cls_digit c = in_range 48 57 c"

text \<open>\<open>[a-zA-Z0-9._%+-]\<close>\<close>
definition cls_local :: "char \<Rightarrow> bool" where
  "cls_local c = (cls_alpha c \<or> cls_digit c \<or> c \<in> set ''._%+-'')"

text \<open>\<open>[a-zA-Z0-9.-]\<close>\<close>
definition cls_host :: "char \<Rightarrow> bool" where
  "cls_host c = (cls_alpha c \<or> cls_digit c \<or> c \<in> set ''.-'')"

text \<open>\<open>[a-f0-9]\<close> under the flag \<open>i\<close>\<close>
definition cls_hex_i :: "char \<Rightarrow> bool" where
  "cls_hex_i c = (in_range 97 102 c \<or> in_range 65 70 c \<or> cls_digit c)"

text \<open>\<open>\w\<close>\<close>
definition cls_word :: "char \<Rightarrow> bool" where
  "cls_word c = (cls_alpha c \<or> cls_digit c \<or> c = CHR ''_'')"

text \<open>\<open>.\<close>: any code unit but a line terminator (of which LF and CR are below 256)\<close>
definition cls_any :: "char \<Rightarrow> bool" where
  "cls_any c = (of_char c \<noteq> (10::nat) \<and> of_char c \<noteq> (13::nat))"

text \<open>A pattern that is plain text, found anywhere: \<open>/noreply/\<close>.\<close>

definition contains_text :: "string \<Rightarrow> regex" where
  "contains_text w = Regex False [Lit w] False"

text \<open>A pattern of plain text at the end: \<open>/@gmail\.com$/\<close>.\<close>

definition ends_with :: "string \<Rightarrow> regex" where
  "ends_with w = Regex False [Lit w] True"

section \<open>Email validator (content.ts)\<close>

definition emailRegex :: regex where
  "emailRegex = Regex True [Rep 1 cls_local, Lit ''@'', Rep 1 cls_host, Lit ''.'', Rep 2 cls_alpha] True"

definition invalidPatterns :: "regex list" where
  "invalidPatterns =
     [contains_text ''noreply'',
      contains_text ''no-reply'',
      contains_text ''support'',
      contains_text ''admin'',
      contains_text ''test'',
      contains_text ''example'',
      contains_text ''placeholder'',
      contains_text ''your.email'',
      Regex False [Lit ''+'', Rep 0 cls_any, Lit ''+''] False,
      Regex True [Rep 10 cls_digit] True,
      Regex True [Rep 32 cls_hex_i] True,
      Regex False [Lit ''.'', Rep 10 cls_word] True,
      contains_text ''token'',
      contains_text ''session'',
      contains_text ''auth'',
      contains_text ''key'',
      contains_text ''secret'',
      contains_text ''encrypted'',
      contains_text ''hash'',
      contains_text ''digest'',
      contains_text ''signature'']"

definition validProviders :: "regex list" where
  "validProviders =
     [ends_with ''@gmail.com'',
      ends_with ''@yahoo.com'',
      ends_with ''@outlook.com'',
      ends_with ''@hotmail.com'',
      ends_with ''@icloud.com'',
      ends_with ''@protonmail.com'',
      ends_with ''@mail.com'',
      ends_with ''@yandex.com'',
      ends_with ''@zoho.com'',
      ends_with ''@aol.com'']"

definition suspiciousUsernamePatterns :: "regex list" where
  "suspiciousUsernamePatterns =
     [Regex True [Rep 8 cls_hex_i] True,
      Regex True [Rep 6 cls_digit] True,
      Regex False [Rep 10 (\<lambda>c. c = CHR ''_'')] False,
      Regex False [Rep 5 (\<lambda>c. c = CHR ''.'')] False]"

definition isValidEmail :: "string \<Rightarrow> bool" where
  "isValidEmail email =
     (let lowerEmail = toLowerCase email
      in if \<not> test emailRegex email then False
         else if some (\<lambda>pattern. test pattern lowerEmail) invalidPatterns then False
         else if some (\<lambda>provider. test provider lowerEmail) validProviders then True
         else
           let parts = split (CHR ''@'') email
           in if length parts \<noteq> 2 then False
              else
                let username = parts ! 0; domain = parts ! 1
                in if length username > 30 \<or> length username < 2 then False
                   else if length domain > 50 \<or> length domain < 4 then False
                   else if some (\<lambda>pattern. test pattern username) suspiciousUsernamePatterns
                        then False
                   else True)"

text \<open>The plain-text fragments among \<open>invalidPatterns\<close>.\<close>

definition denylist_fragments :: "string list" where
  "denylist_fragments =
     [''noreply'', ''no-reply'', ''support'', ''admin'', ''test'', ''example'', ''placeholder'',
      ''your.email'', ''token'', ''session'', ''auth'', ''key'', ''secret'', ''encrypted'',
      ''hash'', ''digest'', ''signature'']"

section \<open>Record store\<close>

text \<open>
  \<open>EmailMapping\<close> of storage.ts, with the optional \<open>description\<close> that the background
  script and the sync backend add. \<open>timestamp\<close> and \<open>count\<close> are JavaScript numbers holding
  integers; the clock \<open>Date.now()\<close> is the parameter \<open>now\<close> of each operation.
\<close>

record EmailMapping =
  email :: string
  apiUrl :: string
  timestamp :: int
  count :: int
  description :: "string option"

text \<open>
  \<open>DomainMappings\<close> is a plain object whose own keys are domains. It is modelled as an
  association list in insertion order, read by \<open>map_of\<close> (the first pair of a key is the
  property). \<open>obj[k] = v\<close> is \<open>AList.update\<close>, \<open>delete obj[k]\<close> is \<open>AList.delete\<close>, and
  \<open>Object.entries\<close> lists every own key once. The order that JavaScript gives to
  integer-like keys is not modelled.
\<close>

type_synonym DomainMappings = "(string \<times> EmailMapping list) list"

definition Object_entries :: "DomainMappings \<Rightarrow> (string \<times> EmailMapping list) list" where
  "Object_entries obj = AList.clearjunk obj"

definition Object_keys :: "DomainMappings \<Rightarrow> string list" where
  "Object_keys obj = map fst (AList.clearjunk obj)"

text \<open>The records stored under an own key, none when the key is absent.\<close>

definition lookup :: "DomainMappings \<Rightarrow> string \<Rightarrow> EmailMapping list" where
  "lookup obj domain = (case map_of obj domain of None \<Rightarrow> [] | Some entries \<Rightarrow> entries)"

text \<open>
  A property read \<open>obj[k]\<close> also finds what a plain object inherits from
  \<open>Object.prototype\<close>: for one of the names below that is no own key, the read gives a
  function (the prototype object for \<open>__proto__\<close>), which is truthy and has none of the
  array methods, so that \<open>.find\<close>, \<open>.findIndex\<close> and \<open>.filter\<close> on it raise a
  \<open>TypeError\<close>.
\<close>

datatype error = TypeError

definition inherited_names :: "string list" where
  "inherited_names =
     [''constructor'', ''__defineGetter__'', ''__defineSetter__'', ''hasOwnProperty'',
      ''__lookupGetter__'', ''__lookupSetter__'', ''isPrototypeOf'', ''propertyIsEnumerable'',
      ''toString'', ''valueOf'', ''__proto__'', ''toLocaleString'']"

datatype property = Undefined | Inherited | Entries "EmailMapping list"

definition get_property :: "DomainMappings \<Rightarrow> string \<Rightarrow> property" where
  "get_property obj k =
     (case map_of obj k of
        Some entries \<Rightarrow> Entries entries
      | None \<Rightarrow> (if k \<in> set inherited_names then Inherited else Undefined))"

text \<open>\<open>if (!obj[domain]) { obj[domain] = []; }\<close>: only \<open>undefined\<close> is falsy here.\<close>

definition ensure_domain :: "string \<Rightarrow> DomainMappings \<Rightarrow> DomainMappings" where
  "ensure_domain domain obj =
     (case get_property obj domain of
        Undefined \<Rightarrow> AList.update domain [] obj
      | Inherited \<Rightarrow> obj
      | Entries entries \<Rightarrow> obj)"

text \<open>
  The value stored under the key \<open>emailMappings\<close> of \<open>chrome.storage.local\<close> is a
  \<open>DomainMappings\<close>; every reader replaces a missing value by the empty object, so the
  stored value is the state. A read returns a copy: changes made to it reach the storage
  only through \<open>chrome.storage.local.set\<close>. The storage calls are taken to succeed.
\<close>

subsection \<open>saveEmailMapping (storage.ts)\<close>

text \<open>
  The result is the returned boolean and the stored value afterwards. A \<open>TypeError\<close> of
  \<open>findIndex\<close> is caught by the function, which then returns \<open>false\<close> and has written
  nothing.
\<close>

definition saveEmailMapping ::
  "int \<Rightarrow> string \<Rightarrow> string \<Rightarrow> string \<Rightarrow> DomainMappings \<Rightarrow> bool \<times> DomainMappings" where
  "saveEmailMapping now domain email' apiUrl' stored =
     (let mappings = ensure_domain domain stored
      in case get_property mappings domain of
           Entries entries \<Rightarrow>
             (case findIndex (\<lambda>entry. email entry = email') entries of
                Some existingIndex \<Rightarrow>
                  (True,
                   AList.update domain
                     (entries[existingIndex :=
                        (entries ! existingIndex)
                          \<lparr>timestamp := now,
                           count := count (entries ! existingIndex) + 1,
                           apiUrl := apiUrl'\<rparr>])
                     mappings)
              | None \<Rightarrow>
                  (let unshifted =
                         \<lparr>email = email', apiUrl = apiUrl', timestamp = now, count = 1,
                          description = None\<rparr> # entries
                   in (True,
                       AList.update domain
                         (if length unshifted > 5 then take 5 unshifted else unshifted)
                         mappings)))
         | Inherited \<Rightarrow> (False, stored)
         | Undefined \<Rightarrow> (False, stored))"

subsection \<open>storeEmailMapping (background.ts)\<close>

text \<open>
  The result has the copy that the function worked on and the value that the storage
  holds afterwards. The branch for an email that is already there changes the copy and
  does not call \<open>chrome.storage.local.set\<close>. A \<open>TypeError\<close> of \<open>find\<close> is caught and
  logged, with nothing written.
\<close>

record store_result =
  working_copy :: DomainMappings
  persisted :: DomainMappings

definition storeEmailMapping ::
  "int \<Rightarrow> string \<Rightarrow> string \<Rightarrow> string \<Rightarrow> DomainMappings \<Rightarrow> store_result" where
  "storeEmailMapping now domain email' apiUrl' stored =
     (let storage = ensure_domain domain stored
      in case get_property storage domain of
           Entries entries \<Rightarrow>
             (case findIndex (\<lambda>entry. email entry = email') entries of
                None \<Rightarrow>
                  (let unshifted =
                         \<lparr>email = email', apiUrl = apiUrl', timestamp = now, count = 1,
                          description = None\<rparr> # entries;
                       storage' =
                         AList.update domain
                           (if length unshifted > 10 then take 10 unshifted else unshifted)
                           storage
                   in \<lparr>working_copy = storage', persisted = storage'\<rparr>)
              | Some i \<Rightarrow>
                  \<lparr>working_copy =
                     AList.update domain
                       (entries[i := (entries ! i)
                          \<lparr>timestamp := now, count := count (entries ! i) + 1\<rparr>])
                       storage,
                   persisted = stored\<rparr>)
         | Inherited \<Rightarrow> \<lparr>working_copy = storage, persisted = stored\<rparr>
         | Undefined \<Rightarrow> \<lparr>working_copy = storage, persisted = stored\<rparr>)"

subsection \<open>Message handlers (background.ts)\<close>

text \<open>
  A handler works in the callback of \<open>chrome.storage.local.get\<close>. Its result is the
  reply that it sends, or the error raised in the callback, after which no reply is sent
  and nothing is written, together with the stored value afterwards.
\<close>

record response =
  success :: bool
  error :: "string option"

definition ok :: response where
  "ok = \<lparr>success = True, error = None\<rparr>"

definition failed :: "string \<Rightarrow> response" where
  "failed msg = \<lparr>success = False, error = Some msg\<rparr>"

text \<open>\<open>LOGIN_DETECTED\<close> with the message data \<open>email\<close>, \<open>website\<close>, \<open>timestamp\<close>, \<open>url\<close>.\<close>

definition LOGIN_DETECTED ::
  "string \<Rightarrow> string \<Rightarrow> int \<Rightarrow> string \<Rightarrow> DomainMappings
     \<Rightarrow> (error + response) \<times> DomainMappings" where
  "LOGIN_DETECTED email' website timestamp' url stored =
     (let mappings = ensure_domain website stored
      in case get_property mappings website of
           Entries entries \<Rightarrow>
             (case findIndex (\<lambda>entry. email entry = email') entries of
                None \<Rightarrow>
                  (let unshifted =
                         \<lparr>email = email', apiUrl = url, timestamp = timestamp', count = 1,
                          description = None\<rparr> # entries
                   in (Inr ok,
                       AList.update website
                         (if length unshifted > 10 then take 10 unshifted else unshifted)
                         mappings))
              | Some i \<Rightarrow>
                  (Inr ok,
                   AList.update website
                     (entries[i := (entries ! i)
                        \<lparr>timestamp := timestamp', count := count (entries ! i) + 1\<rparr>])
                     mappings))
         | Inherited \<Rightarrow> (Inl TypeError, stored)
         | Undefined \<Rightarrow> (Inl TypeError, stored))"

text \<open>\<open>ADD_EMAIL\<close>; the source URL is \<open>manual://\<close> followed by the domain.\<close>

definition ADD_EMAIL ::
  "int \<Rightarrow> string \<Rightarrow> string \<Rightarrow> DomainMappings \<Rightarrow> (error + response) \<times> DomainMappings" where
  "ADD_EMAIL now domain email' stored =
     (let mappings = ensure_domain domain stored
      in case get_property mappings domain of
           Entries entries \<Rightarrow>
             (case findIndex (\<lambda>entry. email entry = email') entries of
                None \<Rightarrow>
                  (let unshifted =
                         \<lparr>email = email', apiUrl = ''manual://'' @ domain, timestamp = now,
                          count = 1, description = None\<rparr> # entries
                   in (Inr ok,
                       AList.update domain
                         (if length unshifted > 10 then take 10 unshifted else unshifted)
                         mappings))
              | Some i \<Rightarrow> (Inr (failed ''Email already exists for this domain''), stored))
         | Inherited \<Rightarrow> (Inl TypeError, stored)
         | Undefined \<Rightarrow> (Inl TypeError, stored))"

text \<open>\<open>DELETE_EMAIL\<close>; the test \<open>if (mappings[domain])\<close> passes for an inherited property.\<close>

definition DELETE_EMAIL ::
  "string \<Rightarrow> string \<Rightarrow> DomainMappings \<Rightarrow> (error + response) \<times> DomainMappings" where
  "DELETE_EMAIL domain email' stored =
     (case get_property stored domain of
        Entries entries \<Rightarrow>
          (let kept = filter (\<lambda>entry. email entry \<noteq> email') entries;
               mappings = AList.update domain kept stored
           in (Inr ok, if length kept = 0 then AList.delete domain mappings else mappings))
      | Inherited \<Rightarrow> (Inl TypeError, stored)
      | Undefined \<Rightarrow> (Inr (failed ''Domain not found''), stored))"

text \<open>\<open>EDIT_EMAIL\<close>; a \<open>description\<close> that is \<open>undefined\<close> is \<open>None\<close>.\<close>

definition EDIT_EMAIL ::
  "int \<Rightarrow> string \<Rightarrow> string \<Rightarrow> string \<Rightarrow> string option \<Rightarrow> DomainMappings
     \<Rightarrow> (error + response) \<times> DomainMappings" where
  "EDIT_EMAIL now domain oldEmail newEmail description' stored =
     (case get_property stored domain of
        Entries entries \<Rightarrow>
          (case findIndex (\<lambda>entry. email entry = oldEmail) entries of
             Some emailIndex \<Rightarrow>
               (let renamed = (entries ! emailIndex)\<lparr>email := newEmail, timestamp := now\<rparr>;
                    edited =
                      (case description' of
                         None \<Rightarrow> renamed
                       | Some text \<Rightarrow> renamed\<lparr>description := Some text\<rparr>)
                in (Inr ok, AList.update domain (entries[emailIndex := edited]) stored))
           | None \<Rightarrow> (Inr (failed ''Email not found''), stored))
      | Inherited \<Rightarrow> (Inl TypeError, stored)
      | Undefined \<Rightarrow> (Inr (failed ''Domain not found''), stored))"

subsection \<open>getStorageStats (storage.ts)\<close>

text \<open>
  The per-domain entry of the statistics; its field \<open>totalLogins\<close> is named
  \<open>domainLogins\<close> here, apart from the field of the whole statistics.
\<close>

record DomainStats =
  domain :: string
  emailCount :: nat
  domainLogins :: int

record StorageStats =
  totalDomains :: nat
  totalEmails :: nat
  totalLogins :: int
  domains :: "DomainStats list"

definition getStorageStats :: "DomainMappings \<Rightarrow> StorageStats" where
  "getStorageStats mappings =
     foldl
       (\<lambda>stats (domain', entries).
          let domainData =
                \<lparr>domain = domain', emailCount = length entries,
                 domainLogins = foldl (\<lambda>sum entry. sum + count entry) 0 entries\<rparr>
          in stats
               \<lparr>domains := domains stats @ [domainData],
                totalEmails := totalEmails stats + emailCount domainData,
                totalLogins := totalLogins stats + domainLogins domainData\<rparr>)
       \<lparr>totalDomains = length (Object_keys mappings), totalEmails = 0, totalLogins = 0,
        domains = []\<rparr>
       (Object_entries mappings)"

section \<open>Sync merge (syncService.ts)\<close>

datatype MergeStrategy = LOCAL_WINS | REMOTE_WINS | LATEST_WINS

text \<open>
  The body of the inner loop of \<open>smartMerge\<close>, on the list \<open>merged[domain]\<close> once it is
  known to be an array.
\<close>

definition merge_record ::
  "MergeStrategy \<Rightarrow> EmailMapping list \<Rightarrow> EmailMapping \<Rightarrow> EmailMapping list" where
  "merge_record strategy entries localEmail =
     (case findIndex (\<lambda>remoteEmail. email remoteEmail = email localEmail) entries of
        Some existingIndex \<Rightarrow>
          (let remoteEmail = entries ! existingIndex
           in case strategy of
                LOCAL_WINS \<Rightarrow> entries[existingIndex := localEmail]
              | REMOTE_WINS \<Rightarrow> entries
              | LATEST_WINS \<Rightarrow>
                  (if timestamp localEmail > timestamp remoteEmail
                   then entries[existingIndex := localEmail]
                   else entries))
      | None \<Rightarrow> entries @ [localEmail])"

text \<open>
  One step of the inner loop on the object \<open>merged\<close>: \<open>merged[domain].findIndex\<close> raises
  when \<open>merged[domain]\<close> is an inherited property. \<open>smartMerge\<close> does not catch the error,
  so it ends the merge.
\<close>

definition merge_step ::
  "MergeStrategy \<Rightarrow> string \<Rightarrow> error + DomainMappings \<Rightarrow> EmailMapping
     \<Rightarrow> error + DomainMappings" where
  "merge_step strategy domain' state localEmail =
     (case state of
        Inl raised \<Rightarrow> Inl raised
      | Inr merged \<Rightarrow>
          (case get_property merged domain' of
             Entries entries \<Rightarrow>
               Inr (AList.update domain' (merge_record strategy entries localEmail) merged)
           | Inherited \<Rightarrow> Inl TypeError
           | Undefined \<Rightarrow> Inl TypeError))"

text \<open>One round of the outer loop: a domain of the local data with its records.\<close>

definition merge_domain ::
  "MergeStrategy \<Rightarrow> error + DomainMappings \<Rightarrow> string \<times> EmailMapping list
     \<Rightarrow> error + DomainMappings" where
  "merge_domain strategy state entry =
     (case state of
        Inl raised \<Rightarrow> Inl raised
      | Inr merged \<Rightarrow>
          foldl (merge_step strategy (fst entry))
            (Inr (ensure_domain (fst entry) merged))
            (snd entry))"

definition smartMerge ::
  "DomainMappings \<Rightarrow> DomainMappings \<Rightarrow> MergeStrategy \<Rightarrow> error + DomainMappings" where
  "smartMerge localData remoteData strategy =
     foldl (merge_domain strategy) (Inr remoteData) (Object_entries localData)"

text \<open>Every list of the store has at most \<open>n\<close> records.\<close>

definition capped :: "nat \<Rightarrow> DomainMappings \<Rightarrow> bool" where
  "capped n obj = list_all (\<lambda>entry. length (snd entry) \<le> n) (Object_entries obj)"

section \<open>Example stores\<close>

definition example_record :: "string \<Rightarrow> int \<Rightarrow> EmailMapping" where
  "example_record e t =
     \<lparr>email = e, apiUrl = ''https://example.com/login'', timestamp = t, count = 1,
      description = None\<rparr>"

text \<open>One domain with one record.\<close>

definition one_email :: DomainMappings where
  "one_email = [(''example.com'', [example_record ''b@x.com'' 1])]"

text \<open>One domain with two records.\<close>

definition two_emails :: DomainMappings where
  "two_emails =
     [(''example.com'', [example_record ''a@x.com'' 1, example_record ''b@x.com'' 2])]"

text \<open>
  The store after five first logins at the times 1 to 5 and two repeated logins, of
  \<open>a@x.com\<close> at time 6 and of \<open>d@x.com\<close> at time 7, all through \<open>saveEmailMapping\<close>
  from the empty store.
\<close>

definition five_touched :: DomainMappings where
  "five_touched =
     foldl
       (\<lambda>stored login.
          snd (saveEmailMapping (fst login) ''example.com'' (snd login)
                 ''https://example.com/login'' stored))
       []
       [(1, ''a@x.com''), (2, ''b@x.com''), (3, ''c@x.com''), (4, ''d@x.com''),
        (5, ''e@x.com''), (6, ''a@x.com''), (7, ''d@x.com'')]"

text \<open>
  A local and a remote store with six records each for one domain, all distinct, and the
  store of twelve records that they merge to.
\<close>

definition six_local :: DomainMappings where
  "six_local =
     [(''example.com'',
       [example_record ''l1@x.com'' 1, example_record ''l2@x.com'' 2,
        example_record ''l3@x.com'' 3, example_record ''l4@x.com'' 4,
        example_record ''l5@x.com'' 5, example_record ''l6@x.com'' 6])]"

definition six_remote :: DomainMappings where
  "six_remote =
     [(''example.com'',
       [example_record ''r1@x.com'' 1, example_record ''r2@x.com'' 2,
        example_record ''r3@x.com'' 3, example_record ''r4@x.com'' 4,
        example_record ''r5@x.com'' 5, example_record ''r6@x.com'' 6])]"

definition twelve_merged :: DomainMappings where
  "twelve_merged =
     [(''example.com'',
       [example_record ''r1@x.com'' 1, example_record ''r2@x.com'' 2,
        example_record ''r3@x.com'' 3, example_record ''r4@x.com'' 4,
        example_record ''r5@x.com'' 5, example_record ''r6@x.com'' 6,
        example_record ''l1@x.com'' 1, example_record ''l2@x.com'' 2,
        example_record ''l3@x.com'' 3, example_record ''l4@x.com'' 4,
        example_record ''l5@x.com'' 5, example_record ''l6@x.com'' 6])]"







section \<open>Properties of the string operations\<close>

lemma toLowerCase_char_idem: "toLowerCase_char (toLowerCase_char c) = toLowerCase_char c"
  by (simp add: toLowerCase_char_def Let_def)

lemma toLowerCase_idem: "toLowerCase (toLowerCase s) = toLowerCase s"
  by (simp add: toLowerCase_def toLowerCase_char_idem)

lemma split_from_nonempty: "split_from sep cur s \<noteq> []"
  by (induction s arbitrary: cur) auto

lemma join_Cons: "ps \<noteq> [] \<Longrightarrow> join sep (p # ps) = p @ sep @ join sep ps"
  by (cases ps) auto

lemma join_split_from: "join [sep] (split_from sep cur s) = cur @ s"
  by (induction s arbitrary: cur) (auto simp: join_Cons split_from_nonempty)

lemma split_from_no_sep_all:
  "sep \<notin> set cur \<Longrightarrow> \<forall>p\<in>set (split_from sep cur s). sep \<notin> set p"
proof (induction s arbitrary: cur)
  case Nil
  then show ?case by simp
next
  case (Cons c cs)
  show ?case
  proof (cases "c = sep")
    case True
    have "\<forall>p\<in>set (split_from sep [] cs). sep \<notin> set p"
      using Cons.IH [of "[]"] by simp
    with Cons.prems True show ?thesis by simp
  next
    case False
    have "\<forall>p\<in>set (split_from sep (cur @ [c]) cs). sep \<notin> set p"
      using Cons.IH [of "cur @ [c]"] Cons.prems False by simp
    with False show ?thesis by simp
  qed
qed

lemma split_no_sep: "p \<in> set (split sep s) \<Longrightarrow> sep \<notin> set p"
  using split_from_no_sep_all [of sep "[]" s] by (simp add: split_def)

lemma split_from_append: "sep \<notin> set p \<Longrightarrow> split_from sep cur (p @ s) = split_from sep (cur @ p) s"
  by (induction p arbitrary: cur) auto

lemma split_from_join:
  "ps \<noteq> [] \<Longrightarrow> (\<And>p. p \<in> set ps \<Longrightarrow> sep \<notin> set p) \<Longrightarrow>
   split_from sep cur (join [sep] ps) = (cur @ hd ps) # tl ps"
proof (induction ps arbitrary: cur)
  case Nil
  then show ?case by simp
next
  case (Cons p ps)
  show ?case
  proof (cases ps)
    case Nil
    with Cons.prems show ?thesis
      using split_from_append [of sep p cur "[]"] by simp
  next
    case (Cons q qs)
    have "split_from sep [] (join [sep] ps) = ([] @ hd ps) # tl ps"
      using Cons.IH [of "[]"] Cons.prems Cons by simp
    then show ?thesis
      using Cons Cons.prems split_from_append [of sep p cur "sep # join [sep] ps"]
      by simp
  qed
qed

lemma split_join: "ps \<noteq> [] \<Longrightarrow> (\<And>p. p \<in> set ps \<Longrightarrow> sep \<notin> set p) \<Longrightarrow> split sep (join [sep] ps) = ps"
  using split_from_join [of ps sep "[]"] by (simp add: split_def)

lemma join_drop_suffix: "suffix (join [sep] (drop n (split_from sep cur s))) (cur @ s)"
proof (induction s arbitrary: cur n)
  case Nil
  then show ?case by (cases n) auto
next
  case (Cons c cs)
  show ?case
  proof (cases "c = sep")
    case True
    show ?thesis
    proof (cases n)
      case 0
      then show ?thesis using join_split_from [of sep cur "c # cs"] by simp
    next
      case (Suc m)
      have "suffix (join [sep] (drop m (split_from sep [] cs))) ([] @ cs)" by (rule Cons.IH)
      then have "suffix (join [sep] (drop m (split_from sep [] cs))) (cur @ c # cs)"
        by (simp add: suffix_def) (metis append.assoc append_Cons)
      then show ?thesis using True Suc by simp
    qed
  next
    case False
    then show ?thesis using Cons.IH [where cur = "cur @ [c]" and n = n] by simp
  qed
qed

lemma slice_last_suffix: "suffix (join ''.'' (slice_last n (split (CHR ''.'') s))) s"
  using join_drop_suffix [where sep = "CHR ''.''" and cur = "[]" and s = s] by (simp add: slice_last_def split_def)

lemma suffix_toLowerCase: "suffix r c \<Longrightarrow> toLowerCase c = c \<Longrightarrow> toLowerCase r = r"
  by (auto simp: suffix_def toLowerCase_def)

lemma strip_www_suffix: "suffix (strip_www s) s"
  by (simp add: strip_www_def suffix_drop)

lemma rootDomain_suffix: "suffix (rootDomain tlds h) (strip_www (toLowerCase h))"
  by (auto simp: rootDomain_def Let_def slice_last_suffix strip_www_def toLowerCase_def)

section \<open>Properties of the domain normalizer\<close>

lemma toLowerCase_clean: "toLowerCase (strip_www (toLowerCase h)) = strip_www (toLowerCase h)"
  using suffix_toLowerCase [OF strip_www_suffix toLowerCase_idem] .

lemma rootDomain_lower: "toLowerCase (rootDomain tlds h) = rootDomain tlds h"
  using suffix_toLowerCase [OF rootDomain_suffix toLowerCase_clean] .

lemma length_slice_last: "length (slice_last n xs) = min n (length xs)"
  by (auto simp: slice_last_def)

lemma slice_last_slice_last: "m \<le> n \<Longrightarrow> slice_last m (slice_last n xs) = slice_last m xs"
proof -
  assume "m \<le> n"
  then have "length xs - (length xs - n) - m + (length xs - n) = length xs - m" by arith
  then show ?thesis by (simp add: slice_last_def)
qed

lemma set_slice_last: "p \<in> set (slice_last n xs) \<Longrightarrow> p \<in> set xs"
  by (auto simp: slice_last_def dest: in_set_dropD)

lemma split_join_slice_last:
  assumes "0 < n" and "parts = split (CHR ''.'') c"
  shows "split (CHR ''.'') (join ''.'' (slice_last n parts)) = slice_last n parts"
proof (rule split_join)
  have "parts \<noteq> []" using assms(2) by (simp add: split_def split_from_nonempty)
  then have "length (slice_last n parts) \<noteq> 0" using assms(1) by (simp add: length_slice_last)
  then show "slice_last n parts \<noteq> []" by auto
next
  fix p assume "p \<in> set (slice_last n parts)"
  then have "p \<in> set (split (CHR ''.'') c)" using assms(2) by (simp add: set_slice_last)
  then show "CHR ''.'' \<notin> set p" by (rule split_no_sep)
qed

lemma rootDomain_stable:
  assumes nw: "take 4 (rootDomain tlds h) \<noteq> ''www.''"
  shows "rootDomain tlds (rootDomain tlds h) = rootDomain tlds h"
proof -
  define r where "r = rootDomain tlds h"
  define c where "c = strip_www (toLowerCase h)"
  define parts where "parts = split (CHR ''.'') c"
  have clean_r: "strip_www (toLowerCase r) = r"
    using nw rootDomain_lower [of tlds h] by (simp add: r_def strip_www_def)
  have again: "rootDomain tlds r =
      (if r = [] then r
       else if length (split (CHR ''.'') r) \<le> 2 then r
       else if join ''.'' (slice_last 2 (split (CHR ''.'') r)) \<in> set tlds
            then join ''.'' (slice_last 3 (split (CHR ''.'') r))
            else join ''.'' (slice_last 2 (split (CHR ''.'') r)))"
    by (simp add: rootDomain_def [of tlds r] clean_r Let_def)
  consider (empty) "h = []"
    | (short) "h \<noteq> []" "length parts \<le> 2"
    | (tld) "h \<noteq> []" "2 < length parts" "join ''.'' (slice_last 2 parts) \<in> set tlds"
    | (plain) "h \<noteq> []" "2 < length parts" "join ''.'' (slice_last 2 parts) \<notin> set tlds"
    by fastforce
  then have "rootDomain tlds r = r"
  proof cases
    case empty
    then have "r = []" by (simp add: r_def rootDomain_def)
    then show ?thesis by (simp add: rootDomain_def)
  next
    case short
    then have "r = c" by (simp add: r_def rootDomain_def c_def parts_def Let_def)
    with short have "length (split (CHR ''.'') r) \<le> 2" by (simp add: parts_def)
    then show ?thesis by (simp add: again)
  next
    case tld
    then have r: "r = join ''.'' (slice_last 3 parts)"
      by (simp add: r_def rootDomain_def c_def parts_def Let_def)
    have sp: "split (CHR ''.'') r = slice_last 3 parts"
      unfolding r by (rule split_join_slice_last [OF _ parts_def]) simp
    have len: "length (slice_last 3 parts) = 3" using tld by (simp add: length_slice_last)
    have "slice_last 3 (slice_last 3 parts) = slice_last 3 parts" 
      by (simp add: slice_last_slice_last)
    moreover have "slice_last 2 (slice_last 3 parts) = slice_last 2 parts"
      by (simp add: slice_last_slice_last)
    ultimately show ?thesis using tld len by (simp add: again sp) (simp add: r)
  next
    case plain
    then have r: "r = join ''.'' (slice_last 2 parts)"
      by (simp add: r_def rootDomain_def c_def parts_def Let_def)
    have sp: "split (CHR ''.'') r = slice_last 2 parts"
      unfolding r by (rule split_join_slice_last [OF _ parts_def]) simp
    have len: "length (slice_last 2 parts) = 2" using plain by (simp add: length_slice_last)
    show ?thesis using len by (simp add: again sp)
  qed
  then show ?thesis by (simp add: r_def)
qed

lemma rootDomain_shrinks:
  assumes "take 4 r = ''www.''"
  shows "rootDomain tlds r \<noteq> r"
proof -
  have "length (strip_www (toLowerCase r)) \<le> length r"
    using suffix_length_le [OF strip_www_suffix [of "toLowerCase r"]] by (simp add: toLowerCase_def)
  have lw: "take 4 (toLowerCase r) = ''www.''"
  proof -
    have "take 4 (toLowerCase r) = toLowerCase (take 4 r)" by (simp add: toLowerCase_def take_map)
    also have "\<dots> = ''www.''" unfolding assms by code_simp
    finally show ?thesis .
  qed
  have "length (take 4 r) = length ''www.''" by (simp only: assms)
  then have "4 \<le> length r" by simp
  then have "length (strip_www (toLowerCase r)) < length r"
    using lw by (simp add: strip_www_def toLowerCase_def)
  moreover have "length (rootDomain tlds r) \<le> length (strip_www (toLowerCase r))"
    by (rule suffix_length_le [OF rootDomain_suffix])
  ultimately show ?thesis by auto
qed

lemma rootDomain_idem_iff:
  "rootDomain tlds (rootDomain tlds h) = rootDomain tlds h \<longleftrightarrow> take 4 (rootDomain tlds h) \<noteq> ''www.''"
  using rootDomain_stable [of tlds h] rootDomain_shrinks [of "rootDomain tlds h" tlds] by blast

section \<open>Claims about the domain normalizer\<close>

text \<open>
  C8: the domain normalizer maps \<open>login.example.co.uk\<close> to \<open>example.co.uk\<close>, maps
  \<open>www.github.com\<close> to \<open>github.com\<close>, and maps \<open>a.b.c.d.com\<close> to \<open>d.com\<close> (the last
  two labels, not \<open>c.d.com\<close>). Both copies of the normalizer agree on the three inputs.
\<close>

theorem getRootDomain_examples:
  "DomainUtils_getRootDomain ''login.example.co.uk'' = ''example.co.uk''
   \<and> DomainUtils_getRootDomain ''www.github.com'' = ''github.com''
   \<and> DomainUtils_getRootDomain ''a.b.c.d.com'' = ''d.com''
   \<and> DomainUtils_getRootDomain ''a.b.c.d.com'' \<noteq> ''c.d.com''
   \<and> getRootDomain ''login.example.co.uk'' = ''example.co.uk''
   \<and> getRootDomain ''www.github.com'' = ''github.com''
   \<and> getRootDomain ''a.b.c.d.com'' = ''d.com''"
  by (intro conjI; code_simp)

text \<open>
  C2, as stated, fails: the normalizer removes one leading \<open>www.\<close>, so a result that
  itself begins with \<open>www.\<close> is changed by a second application. \<open>www.www.com\<close> goes to
  \<open>www.com\<close>, which goes to \<open>com\<close>.
\<close>

theorem getRootDomain_not_idempotent:
  "DomainUtils_getRootDomain (DomainUtils_getRootDomain ''www.www.com'')
     \<noteq> DomainUtils_getRootDomain ''www.www.com''
   \<and> getRootDomain (getRootDomain ''www.www.com'') \<noteq> getRootDomain ''www.www.com''"
  by (intro conjI; code_simp)

text \<open>
  C2, amended: for every hostname \<open>h\<close>, normalizing the normalized hostname gives the
  normalized hostname again exactly when the normalized hostname does not begin with
  \<open>www.\<close>. This holds for both copies of the normalizer.
\<close>

theorem getRootDomain_idempotent_iff:
  "(DomainUtils_getRootDomain (DomainUtils_getRootDomain h) = DomainUtils_getRootDomain h
      \<longleftrightarrow> take 4 (DomainUtils_getRootDomain h) \<noteq> ''www.'')
   \<and> (getRootDomain (getRootDomain h) = getRootDomain h
      \<longleftrightarrow> take 4 (getRootDomain h) \<noteq> ''www.'')"
  unfolding DomainUtils_getRootDomain_def getRootDomain_def
  using rootDomain_idem_iff [of SEPARATE_TLDS h] rootDomain_idem_iff [of separateTlds h]
  by blast

text \<open>The amended C2 at \<open>login.example.co.uk\<close>, whose normal form is \<open>example.co.uk\<close>.\<close>

theorem getRootDomain_idempotent_iff_witness:
  "take 4 (DomainUtils_getRootDomain ''login.example.co.uk'') \<noteq> ''www.''
   \<and> take 4 (getRootDomain ''login.example.co.uk'') \<noteq> ''www.''
   \<and> DomainUtils_getRootDomain (DomainUtils_getRootDomain ''login.example.co.uk'')
       = DomainUtils_getRootDomain ''login.example.co.uk''
   \<and> getRootDomain (getRootDomain ''login.example.co.uk'')
       = getRootDomain ''login.example.co.uk''"
proof -
  have a: "take 4 (DomainUtils_getRootDomain ''login.example.co.uk'') \<noteq> ''www.''"
    by code_simp
  have b: "take 4 (getRootDomain ''login.example.co.uk'') \<noteq> ''www.''"
    by code_simp
  show ?thesis
    using a b getRootDomain_idempotent_iff [of "''login.example.co.uk''"] by blast
qed

section \<open>Claims about the email validator\<close>

text \<open>
  C9: the email validator returns false for \<open>noreply@service.com\<close> and for
  \<open>a1b2c3d4e5f6a1b2c3d4e5f6a1b2c3d4@x.com\<close> (32 hex characters in the local part), and
  returns true for \<open>jane.doe@gmail.com\<close>.
\<close>

theorem isValidEmail_examples:
  "isValidEmail ''noreply@service.com'' = False
   \<and> isValidEmail ''a1b2c3d4e5f6a1b2c3d4e5f6a1b2c3d4@x.com'' = False
   \<and> isValidEmail ''jane.doe@gmail.com'' = True"
  by (intro conjI; code_simp)

lemma some_iff: "some p xs \<longleftrightarrow> (\<exists>x\<in>set xs. p x)"
  by (induction xs) auto

lemma match_here_Lit: "match_here [Lit w] False (w @ ss)"
  by simp

lemma search_append: "match_here atoms e t \<Longrightarrow> search atoms e (ps @ t)"
proof (induction ps)
  case Nil
  then show ?case by (cases t) auto
next
  case (Cons p ps)
  then show ?case by simp
qed

lemma search_sublist: "sublist w s \<Longrightarrow> search [Lit w] False s"
proof -
  assume "sublist w s"
  then obtain ps ss where s: "s = ps @ w @ ss" by (auto simp: sublist_def)
  show ?thesis unfolding s by (rule search_append [OF match_here_Lit])
qed

lemma test_contains_text: "sublist w s \<Longrightarrow> test (contains_text w) s"
  by (simp add: contains_text_def search_sublist)

lemma fragment_pattern: "w \<in> set denylist_fragments \<Longrightarrow> contains_text w \<in> set invalidPatterns"
  unfolding denylist_fragments_def invalidPatterns_def by auto

lemma denylisted:
  assumes "w \<in> set denylist_fragments" and "sublist w (toLowerCase email')"
  shows "isValidEmail email' = False"
proof -
  have "some (\<lambda>pattern. test pattern (toLowerCase email')) invalidPatterns"
    unfolding some_iff using fragment_pattern [OF assms(1)] test_contains_text [OF assms(2)]
    by blast
  then show ?thesis by (simp add: isValidEmail_def Let_def)
qed

lemma sublist_domain_part:
  "sublist w (toLowerCase d) \<Longrightarrow> sublist w (toLowerCase (l @ ''@'' @ d))"
proof -
  assume "sublist w (toLowerCase d)"
  then obtain ps ss where "toLowerCase d = ps @ w @ ss" by (auto simp: sublist_def)
  then have "toLowerCase (l @ ''@'' @ d) = (toLowerCase (l @ ''@'') @ ps) @ w @ ss"
    by (simp add: toLowerCase_def)
  then show ?thesis unfolding sublist_def by blast
qed

text \<open>
  C10: the email validator applies its denylist fragments to the entire address string,
  not only the local part: every candidate whose lower-cased address contains a denylist
  fragment is rejected, and so is every candidate \<open>local@domain\<close> whose domain contains
  one (for example \<open>jane@keybank.com\<close>).
\<close>

theorem denylist_whole_address:
  "fragment \<in> set denylist_fragments \<Longrightarrow>
     (sublist fragment (toLowerCase address) \<longrightarrow> isValidEmail address = False)
     \<and> (sublist fragment (toLowerCase domain_part)
          \<longrightarrow> isValidEmail (local_part @ ''@'' @ domain_part) = False)"
  using denylisted [of fragment address]
    denylisted [of fragment "local_part @ ''@'' @ domain_part"]
    sublist_domain_part [of fragment domain_part local_part]
  by blast

text \<open>
  C10 at \<open>jane@keybank.com\<close>, whose domain contains \<open>key\<close>; the same address at
  \<open>bank.com\<close> is accepted.
\<close>

theorem denylist_whole_address_witness:
  "''key'' \<in> set denylist_fragments
   \<and> sublist ''key'' (toLowerCase ''keybank.com'')
   \<and> sublist ''key'' (toLowerCase ''jane@keybank.com'')
   \<and> isValidEmail (''jane'' @ ''@'' @ ''keybank.com'') = False
   \<and> isValidEmail ''jane@keybank.com'' = False
   \<and> isValidEmail ''jane@bank.com'' = True"
proof -
  have f: "''key'' \<in> set denylist_fragments" by (simp add: denylist_fragments_def)
  have d: "sublist ''key'' (toLowerCase ''keybank.com'')" by code_simp
  have a: "sublist ''key'' (toLowerCase ''jane@keybank.com'')" by code_simp
  have ok: "isValidEmail ''jane@bank.com'' = True" by code_simp
  show ?thesis
    using f d a ok
      denylist_whole_address [of "''key''" "''jane@keybank.com''" "''keybank.com''" "''jane''"]
    by blast
qed

section \<open>Properties of the sync merge\<close>

lemma findIndex_None: "findIndex p xs = None \<longleftrightarrow> (\<forall>x\<in>set xs. \<not> p x)"
  by (induction xs) (auto split: option.splits)

lemma findIndex_Some:
  "findIndex p xs = Some i \<Longrightarrow> i < length xs \<and> p (xs ! i)"
  by (induction xs arbitrary: i) (auto split: if_splits option.splits)

lemma findIndex_first:
  "findIndex p xs = Some i \<Longrightarrow> j < i \<Longrightarrow> \<not> p (xs ! j)"
proof (induction xs arbitrary: i j)
  case Nil
  then show ?case by simp
next
  case (Cons x xs)
  show ?case
  proof (cases "p x")
    case True
    with Cons.prems show ?thesis by simp
  next
    case False
    with Cons.prems obtain i' where i': "findIndex p xs = Some i'" "i = Suc i'"
      by (auto split: option.splits)
    show ?thesis
    proof (cases j)
      case 0
      with False show ?thesis by simp
    next
      case (Suc j')
      with Cons.prems i' have "j' < i'" by simp
      with Cons.IH [OF i'(1)] Suc show ?thesis by simp
    qed
  qed
qed

lemma lookup_update: "lookup (AList.update k v m) d = (if d = k then v else lookup m d)"
  by (simp add: lookup_def update_conv')

lemma lookup_ensure: "lookup (ensure_domain k m) d = lookup m d"
  by (cases "map_of m k")
    (auto simp: ensure_domain_def get_property_def lookup_def update_conv')

lemma lookup_delete: "lookup (AList.delete k m) d = (if d = k then [] else lookup m d)"
  by (simp add: lookup_def delete_conv')

lemma lookup_clearjunk: "lookup (AList.clearjunk m) d = lookup m d"
  by (simp add: lookup_def map_of_clearjunk)

lemma map_email_merge_record:
  "map email (merge_record s rs l) =
     (if email l \<in> email ` set rs then map email rs else map email rs @ [email l])"
proof (cases "findIndex (\<lambda>remoteEmail. email remoteEmail = email l) rs")
  case None
  then have "email l \<notin> email ` set rs" by (auto simp: findIndex_None)
  with None show ?thesis by (simp add: merge_record_def)
next
  case (Some i)
  then have i: "i < length rs" "email (rs ! i) = email l" by (auto dest: findIndex_Some)
  then have "map email (rs[i := l]) = map email rs"
    by (simp add: map_update list_update_same_conv)
  moreover have "email l \<in> email ` set rs" using i by (metis imageI nth_mem)
  ultimately show ?thesis using Some
    by (cases s) (simp_all add: merge_record_def Let_def)
qed

lemma length_merge_record:
  "length (merge_record s rs l) = (if email l \<in> email ` set rs then length rs else Suc (length rs))"
  using arg_cong [OF map_email_merge_record [of s rs l], of length] by (simp split: if_splits)








lemma length_foldl_merge_record:
  "length rs \<le> length (foldl (merge_record s) rs ls)
   \<and> length (foldl (merge_record s) rs ls) \<le> length rs + length ls"
proof (induction ls arbitrary: rs)
  case Nil
  then show ?case by simp
next
  case (Cons a ls)
  show ?case using Cons.IH [of "merge_record s rs a"] length_merge_record [of s rs a]
    by (auto split: if_splits)
qed


lemma get_property_Entries: "get_property m k = Entries es \<longleftrightarrow> map_of m k = Some es"
  by (auto simp: get_property_def split: option.splits)

lemma get_property_Inherited:
  "get_property m k = Inherited \<longleftrightarrow> map_of m k = None \<and> k \<in> set inherited_names"
  by (auto simp: get_property_def split: option.splits)

lemma get_property_Undefined:
  "get_property m k = Undefined \<longleftrightarrow> map_of m k = None \<and> k \<notin> set inherited_names"
  by (auto simp: get_property_def split: option.splits)

lemma get_property_update: "get_property (AList.update k v m) k = Entries v"
  by (simp add: get_property_def update_conv')

lemma get_property_ensure:
  "k \<notin> set inherited_names \<Longrightarrow> get_property (ensure_domain k m) k = Entries (lookup m k)"
  by (cases "map_of m k")
    (simp_all add: ensure_domain_def get_property_def lookup_def update_conv')










lemma remdups_snoc: "remdups (xs @ [x]) = remdups (filter (\<lambda>y. y \<noteq> x) xs) @ [x]"
  by (induction xs) auto

lemma first_occurrences_Cons:
  "rev (remdups (rev (x # zs))) = x # rev (remdups (rev (filter (\<lambda>y. y \<noteq> x) zs)))"
  by (simp add: remdups_snoc rev_filter)

lemma map_email_foldl_merge_record:
  "map email (foldl (merge_record s) rs ls) =
     map email rs
       @ rev (remdups (rev (filter (\<lambda>x. x \<notin> email ` set rs) (map email ls))))"
proof (induction ls arbitrary: rs)
  case Nil
  then show ?case by simp
next
  case (Cons a ls)
  note IH = Cons.IH [of "merge_record s rs a"]
  show ?case
  proof (cases "email a \<in> email ` set rs")
    case True
    then have me: "map email (merge_record s rs a) = map email rs"
      by (simp add: map_email_merge_record)
    have "set (map email (merge_record s rs a)) = set (map email rs)" by (simp only: me)
    then have se: "email ` set (merge_record s rs a) = email ` set rs" by simp
    have "map email (foldl (merge_record s) rs (a # ls))
        = map email (foldl (merge_record s) (merge_record s rs a) ls)" by simp
    also have "\<dots> = map email rs
        @ rev (remdups (rev (filter (\<lambda>x. x \<notin> email ` set rs) (map email ls))))"
      unfolding IH me se ..
    also have "\<dots> = map email rs
        @ rev (remdups (rev (filter (\<lambda>x. x \<notin> email ` set rs) (map email (a # ls)))))"
      using True by simp
    finally show ?thesis .
  next
    case False
    then have me: "map email (merge_record s rs a) = map email rs @ [email a]"
      by (simp add: map_email_merge_record)
    have "set (map email (merge_record s rs a)) = set (map email rs @ [email a])"
      by (simp only: me)
    then have se: "email ` set (merge_record s rs a) = insert (email a) (email ` set rs)"
      by simp
    have f: "filter (\<lambda>x. x \<notin> insert (email a) (email ` set rs)) (map email ls)
        = filter (\<lambda>y. y \<noteq> email a) (filter (\<lambda>x. x \<notin> email ` set rs) (map email ls))"
      by (auto intro: filter_cong)
    have "map email (foldl (merge_record s) rs (a # ls))
        = map email (foldl (merge_record s) (merge_record s rs a) ls)" by simp
    also have "\<dots> = (map email rs @ [email a])
        @ rev (remdups (rev (filter (\<lambda>x. x \<notin> insert (email a) (email ` set rs))
            (map email ls))))"
      unfolding IH me se ..
    also have "\<dots> = map email rs
        @ email a # rev (remdups (rev (filter (\<lambda>y. y \<noteq> email a)
            (filter (\<lambda>x. x \<notin> email ` set rs) (map email ls)))))"
      unfolding f by simp
    also have "\<dots> = map email rs
        @ rev (remdups (rev (email a # filter (\<lambda>x. x \<notin> email ` set rs) (map email ls))))"
      by (simp only: first_occurrences_Cons)
    also have "\<dots> = map email rs
        @ rev (remdups (rev (filter (\<lambda>x. x \<notin> email ` set rs) (map email (a # ls)))))"
      using False by simp
    finally show ?thesis .
  qed
qed

lemma merge_step_ok:
  assumes "get_property m0 k = Entries es"
  shows "\<exists>m'. foldl (merge_step s k) (Inr m0) ls = Inr m'
     \<and> (\<forall>d. lookup m' d = (if d = k then foldl (merge_record s) es ls else lookup m0 d))"
  using assms
proof (induction ls arbitrary: m0 es)
  case Nil
  then show ?case by (auto simp: lookup_def get_property_Entries)
next
  case (Cons a ls)
  let ?m1 = "AList.update k (merge_record s es a) m0"
  have step: "merge_step s k (Inr m0) a = Inr ?m1"
    using Cons.prems by (simp add: merge_step_def)
  have "get_property ?m1 k = Entries (merge_record s es a)" by (rule get_property_update)
  from Cons.IH [OF this] obtain m' where m': "foldl (merge_step s k) (Inr ?m1) ls = Inr m'"
    "\<forall>d. lookup m' d = (if d = k then foldl (merge_record s) (merge_record s es a) ls
        else lookup ?m1 d)"
    by blast
  show ?case using m' step by (auto simp: lookup_update)
qed

lemma merge_domain_ok:
  assumes "k \<notin> set inherited_names"
  shows "\<exists>m'. merge_domain s (Inr m) (k, ls) = Inr m'
     \<and> (\<forall>d. lookup m' d = (if d = k then foldl (merge_record s) (lookup m k) ls else lookup m d))"
proof -
  obtain m' where m': "foldl (merge_step s k) (Inr (ensure_domain k m)) ls = Inr m'"
    "\<forall>d. lookup m' d = (if d = k then foldl (merge_record s) (lookup m k) ls
        else lookup (ensure_domain k m) d)"
    using merge_step_ok [OF get_property_ensure [OF assms, of m], of s ls] by blast
  have "merge_domain s (Inr m) (k, ls) = Inr m'" using m'(1) by (simp add: merge_domain_def)
  moreover have "\<forall>d. lookup m' d =
      (if d = k then foldl (merge_record s) (lookup m k) ls else lookup m d)"
    using m'(2) by (simp add: lookup_ensure)
  ultimately show ?thesis by blast
qed

lemma foldl_merge_domain_Inl: "foldl (merge_domain s) (Inl raised) es = Inl raised"
  by (induction es) (simp_all add: merge_domain_def)

lemma foldl_merge_domain_ok:
  "distinct (map fst es) \<Longrightarrow> fst ` set es \<inter> set inherited_names = {} \<Longrightarrow>
   \<exists>m'. foldl (merge_domain s) (Inr m) es = Inr m'
     \<and> (\<forall>d. lookup m' d = foldl (merge_record s) (lookup m d) (lookup es d))"
proof (induction es arbitrary: m)
  case Nil
  then show ?case by (simp add: lookup_def)
next
  case (Cons a es)
  obtain k ls where a: "a = (k, ls)" by (cases a)
  have k: "k \<notin> set inherited_names" using Cons.prems(2) a by auto
  obtain m1 where m1: "merge_domain s (Inr m) (k, ls) = Inr m1"
    "\<forall>d. lookup m1 d = (if d = k then foldl (merge_record s) (lookup m k) ls else lookup m d)"
    using merge_domain_ok [OF k, of s m ls] by blast
  have "distinct (map fst es)" "fst ` set es \<inter> set inherited_names = {}"
    using Cons.prems by auto
  from Cons.IH [OF this, of m1] obtain m' where m': "foldl (merge_domain s) (Inr m1) es = Inr m'"
    "\<forall>d. lookup m' d = foldl (merge_record s) (lookup m1 d) (lookup es d)"
    by blast
  have "k \<notin> fst ` set es" using Cons.prems(1) a by simp
  then have "map_of es k = None" by (simp add: map_of_eq_None_iff)
  then have none: "lookup es k = []" by (simp add: lookup_def)
  have "lookup m' d = foldl (merge_record s) (lookup m d) (lookup (a # es) d)" for d
  proof (cases "d = k")
    case True
    then show ?thesis using m' m1 none a by (simp add: lookup_def)
  next
    case False
    then show ?thesis using m' m1 a by (simp add: lookup_def)
  qed
  then show ?case using m' m1 a by simp
qed

lemma smartMerge_ok:
  assumes "set (map fst localData) \<inter> set inherited_names = {}"
  shows "\<exists>merged. smartMerge localData remoteData s = Inr merged
     \<and> (\<forall>d. lookup merged d = foldl (merge_record s) (lookup remoteData d) (lookup localData d))"
proof -
  have "fst ` set (AList.clearjunk localData) \<inter> set inherited_names = {}"
    using assms by (simp add: dom_clearjunk)
  from foldl_merge_domain_ok [OF distinct_clearjunk this, of s remoteData]
  show ?thesis by (simp add: smartMerge_def Object_entries_def lookup_clearjunk)
qed

section \<open>Claims about the sync merge\<close>





section \<open>Properties of the store operations\<close>

lemma own_key: "lookup m d \<noteq> [] \<Longrightarrow> \<exists>es. get_property m d = Entries es \<and> lookup m d = es"
  by (cases "map_of m d") (simp_all add: lookup_def get_property_def)

lemma lookup_saveEmailMapping:
  "lookup (snd (saveEmailMapping now d e u m)) d' =
     (if d' = d \<and> get_property m d \<noteq> Inherited
      then (case findIndex (\<lambda>entry. email entry = e) (lookup m d) of
              Some i \<Rightarrow>
                (lookup m d)[i := (lookup m d ! i)
                   \<lparr>timestamp := now, count := count (lookup m d ! i) + 1, apiUrl := u\<rparr>]
            | None \<Rightarrow>
                take 5 (\<lparr>email = e, apiUrl = u, timestamp = now, count = 1,
                          description = None\<rparr> # lookup m d))
      else lookup m d')"
  by (cases "map_of m d")
    (auto simp: saveEmailMapping_def ensure_domain_def get_property_def Let_def lookup_def
      update_conv' split: option.splits)

lemma fst_saveEmailMapping:
  "fst (saveEmailMapping now d e u m) = (get_property m d \<noteq> Inherited)"
  by (cases "map_of m d")
    (auto simp: saveEmailMapping_def ensure_domain_def get_property_def Let_def
      update_conv' split: option.splits)

lemma lookup_storeEmailMapping:
  "lookup (persisted (storeEmailMapping now d e u m)) d' =
     (if d' = d \<and> get_property m d \<noteq> Inherited
      then (case findIndex (\<lambda>entry. email entry = e) (lookup m d) of
              Some i \<Rightarrow> lookup m d
            | None \<Rightarrow>
                take 10 (\<lparr>email = e, apiUrl = u, timestamp = now, count = 1,
                           description = None\<rparr> # lookup m d))
      else lookup m d')"
  by (cases "map_of m d")
    (auto simp: storeEmailMapping_def ensure_domain_def get_property_def Let_def lookup_def
      update_conv' split: option.splits)

lemma lookup_LOGIN_DETECTED:
  "lookup (snd (LOGIN_DETECTED e d t u m)) d' =
     (if d' = d \<and> get_property m d \<noteq> Inherited
      then (case findIndex (\<lambda>entry. email entry = e) (lookup m d) of
              Some i \<Rightarrow>
                (lookup m d)[i := (lookup m d ! i)
                   \<lparr>timestamp := t, count := count (lookup m d ! i) + 1\<rparr>]
            | None \<Rightarrow>
                take 10 (\<lparr>email = e, apiUrl = u, timestamp = t, count = 1,
                           description = None\<rparr> # lookup m d))
      else lookup m d')"
  by (cases "map_of m d")
    (auto simp: LOGIN_DETECTED_def ensure_domain_def get_property_def Let_def lookup_def
      update_conv' split: option.splits)

lemma lookup_ADD_EMAIL:
  "lookup (snd (ADD_EMAIL now d e m)) d' =
     (if d' = d \<and> get_property m d \<noteq> Inherited
      then (case findIndex (\<lambda>entry. email entry = e) (lookup m d) of
              Some i \<Rightarrow> lookup m d
            | None \<Rightarrow>
                take 10 (\<lparr>email = e, apiUrl = ''manual://'' @ d, timestamp = now, count = 1,
                           description = None\<rparr> # lookup m d))
      else lookup m d')"
  by (cases "map_of m d")
    (auto simp: ADD_EMAIL_def ensure_domain_def get_property_def Let_def lookup_def
      update_conv' split: option.splits)

lemma capped_iff: "capped n m \<longleftrightarrow> (\<forall>d. length (lookup m d) \<le> n)"
proof
  assume c: "capped n m"
  show "\<forall>d. length (lookup m d) \<le> n"
  proof
    fix d
    show "length (lookup m d) \<le> n"
    proof (cases "map_of m d")
      case None
      then show ?thesis by (simp add: lookup_def)
    next
      case (Some rs)
      then have "map_of (AList.clearjunk m) d = Some rs" by (simp add: map_of_clearjunk)
      then have "(d, rs) \<in> set (AList.clearjunk m)" by (rule map_of_SomeD)
      then have "length rs \<le> n"
        using c by (auto simp: capped_def Object_entries_def list_all_iff)
      with Some show ?thesis by (simp add: lookup_def)
    qed
  qed
next
  assume a: "\<forall>d. length (lookup m d) \<le> n"
  have "length (snd x) \<le> n" if "x \<in> set (AList.clearjunk m)" for x
  proof -
    obtain d rs where x: "x = (d, rs)" by (cases x)
    have "map_of (AList.clearjunk m) d = Some rs"
      using that x by (simp add: map_of_is_SomeI)
    then have "lookup m d = rs" by (simp add: lookup_def map_of_clearjunk)
    then show ?thesis using a x by auto
  qed
  then show "capped n m" by (simp add: capped_def Object_entries_def list_all_iff)
qed

lemma capped_saveEmailMapping:
  "5 \<le> n \<Longrightarrow> capped n m \<Longrightarrow> capped n (snd (saveEmailMapping now d e u m))"
  unfolding capped_iff
  by (auto simp: lookup_saveEmailMapping split: option.splits)

lemma capped_storeEmailMapping:
  "10 \<le> n \<Longrightarrow> capped n m \<Longrightarrow> capped n (persisted (storeEmailMapping now d e u m))"
  unfolding capped_iff
  by (auto simp: lookup_storeEmailMapping split: option.splits)

lemma capped_LOGIN_DETECTED:
  "10 \<le> n \<Longrightarrow> capped n m \<Longrightarrow> capped n (snd (LOGIN_DETECTED e d t u m))"
  unfolding capped_iff
  by (auto simp: lookup_LOGIN_DETECTED split: option.splits)

lemma capped_ADD_EMAIL:
  "10 \<le> n \<Longrightarrow> capped n m \<Longrightarrow> capped n (snd (ADD_EMAIL now d e m))"
  unfolding capped_iff
  by (auto simp: lookup_ADD_EMAIL split: option.splits)

lemma totalDomains_foldl:
  assumes "\<And>s x. totalDomains (f s x) = totalDomains s"
  shows "totalDomains (foldl f s es) = totalDomains s"
  by (induction es arbitrary: s) (simp_all add: assms)

lemma totalDomains_card: "totalDomains (getStorageStats m) = card (dom (map_of m))"
proof -
  have "totalDomains (getStorageStats m) = length (Object_keys m)"
    unfolding getStorageStats_def
    by (subst totalDomains_foldl) (simp_all add: Let_def split: prod.splits)
  then have "totalDomains (getStorageStats m) = length (map fst (AList.clearjunk m))"
    by (simp add: Object_keys_def)
  also have "\<dots> = card (set (map fst (AList.clearjunk m)))"
    using distinct_card [OF distinct_clearjunk [of m]] by simp
  also have "\<dots> = card (dom (map_of m))"
    by (simp add: dom_clearjunk dom_map_of_conv_image_fst)
  finally show ?thesis .
qed

lemma DELETE_EMAIL_absent:
  "map_of m d = None \<Longrightarrow> d \<notin> set inherited_names \<Longrightarrow>
   DELETE_EMAIL d e m = (Inr (failed ''Domain not found''), m)"
  by (simp add: DELETE_EMAIL_def get_property_def)

lemma DELETE_EMAIL_present:
  "map_of m d = Some rs \<Longrightarrow>
   fst (DELETE_EMAIL d e m) = Inr ok
   \<and> map_of (snd (DELETE_EMAIL d e m)) =
       (map_of m)(d := (if filter (\<lambda>entry. email entry \<noteq> e) rs = [] then None
                        else Some (filter (\<lambda>entry. email entry \<noteq> e) rs)))"
  by (auto simp: DELETE_EMAIL_def get_property_def Let_def delete_conv' update_conv')

section \<open>Claims about the record store\<close>

text \<open>
  C3, as stated, fails: a repeated login refreshes the timestamp of its record and leaves
  the record where it is, so the list is in the order of insertion. In the store
  \<open>five_touched\<close> the last record, \<open>a@x.com\<close>, was touched at time 6 and \<open>b@x.com\<close> at
  time 2; the sixth email evicts \<open>a@x.com\<close> and keeps \<open>b@x.com\<close>, and the timestamps of
  the resulting list are not in descending order.
\<close>

theorem saveEmailMapping_evicts_touched:
  "map email (lookup five_touched ''example.com'')
     = [''e@x.com'', ''d@x.com'', ''c@x.com'', ''b@x.com'', ''a@x.com'']
   \<and> map timestamp (lookup five_touched ''example.com'') = [5, 7, 3, 2, 6]
   \<and> map email
        (lookup (snd (saveEmailMapping 8 ''example.com'' ''f@x.com''
                        ''https://example.com/login'' five_touched)) ''example.com'')
       = [''f@x.com'', ''e@x.com'', ''d@x.com'', ''c@x.com'', ''b@x.com'']
   \<and> map timestamp
        (lookup (snd (saveEmailMapping 8 ''example.com'' ''f@x.com''
                        ''https://example.com/login'' five_touched)) ''example.com'')
       = [8, 5, 7, 3, 2]
   \<and> \<not> sorted (rev (map timestamp
        (lookup (snd (saveEmailMapping 8 ''example.com'' ''f@x.com''
                        ''https://example.com/login'' five_touched)) ''example.com'')))"
  by (intro conjI; code_simp)

text \<open>
  C3, amended: upserting a sixth distinct email into a domain whose record list holds 5
  entries drops the last entry of the list, whatever its timestamp, leaving exactly 5
  records: the new record, with count 1, followed by the first four previous records in
  their previous order. Upserting an email that the list already holds changes the first
  record of that email where it stands (timestamp, source URL, count raised by one) and
  leaves every record at its position, so the list is not kept in the order of the most
  recent touch.
\<close>

theorem saveEmailMapping_sixth:
  "(length (lookup stored d) = 5 \<and> e \<notin> email ` set (lookup stored d) \<longrightarrow>
      fst (saveEmailMapping now d e u stored) = True
      \<and> lookup (snd (saveEmailMapping now d e u stored)) d
          = \<lparr>email = e, apiUrl = u, timestamp = now, count = 1, description = None\<rparr>
              # take 4 (lookup stored d)
      \<and> length (lookup (snd (saveEmailMapping now d e u stored)) d) = 5)
   \<and> (e \<in> email ` set (lookup stored d) \<longrightarrow>
      fst (saveEmailMapping now d e u stored) = True
      \<and> map email (lookup (snd (saveEmailMapping now d e u stored)) d)
          = map email (lookup stored d)
      \<and> (\<exists>i<length (lookup stored d).
            email (lookup stored d ! i) = e
            \<and> (\<forall>j<i. email (lookup stored d ! j) \<noteq> e)
            \<and> lookup (snd (saveEmailMapping now d e u stored)) d
                = (lookup stored d)[i := (lookup stored d ! i)
                     \<lparr>timestamp := now, count := count (lookup stored d ! i) + 1,
                      apiUrl := u\<rparr>]))"
proof -
  have ins: "fst (saveEmailMapping now d e u stored) = True
      \<and> lookup (snd (saveEmailMapping now d e u stored)) d
          = \<lparr>email = e, apiUrl = u, timestamp = now, count = 1, description = None\<rparr>
              # take 4 (lookup stored d)
      \<and> length (lookup (snd (saveEmailMapping now d e u stored)) d) = 5"
    if len: "length (lookup stored d) = 5" and new: "e \<notin> email ` set (lookup stored d)"
  proof -
    have "lookup stored d \<noteq> []" using len by auto
    then have own: "get_property stored d \<noteq> Inherited" using own_key [of stored d] by auto
    have "\<forall>x\<in>set (lookup stored d). \<not> email x = e" using new by (metis image_eqI)
    then have none: "findIndex (\<lambda>entry. email entry = e) (lookup stored d) = None"
      by (simp add: findIndex_None)
    show ?thesis
      using len own by (simp add: lookup_saveEmailMapping fst_saveEmailMapping none)
  qed
  have upd: "fst (saveEmailMapping now d e u stored) = True
      \<and> map email (lookup (snd (saveEmailMapping now d e u stored)) d)
          = map email (lookup stored d)
      \<and> (\<exists>i<length (lookup stored d).
            email (lookup stored d ! i) = e
            \<and> (\<forall>j<i. email (lookup stored d ! j) \<noteq> e)
            \<and> lookup (snd (saveEmailMapping now d e u stored)) d
                = (lookup stored d)[i := (lookup stored d ! i)
                     \<lparr>timestamp := now, count := count (lookup stored d ! i) + 1,
                      apiUrl := u\<rparr>])"
    if old: "e \<in> email ` set (lookup stored d)"
  proof -
    have "lookup stored d \<noteq> []" using old by auto
    then have own: "get_property stored d \<noteq> Inherited" using own_key [of stored d] by auto
    have "findIndex (\<lambda>entry. email entry = e) (lookup stored d) \<noteq> None"
      using old by (auto simp: findIndex_None)
    then obtain i where i: "findIndex (\<lambda>entry. email entry = e) (lookup stored d) = Some i"
      by auto
    then have bound: "i < length (lookup stored d)" and at: "email (lookup stored d ! i) = e"
      by (auto dest: findIndex_Some)
    have first: "\<forall>j<i. email (lookup stored d ! j) \<noteq> e"
      using findIndex_first [OF i] by blast
    have u: "lookup (snd (saveEmailMapping now d e u stored)) d
        = (lookup stored d)[i := (lookup stored d ! i)
             \<lparr>timestamp := now, count := count (lookup stored d ! i) + 1, apiUrl := u\<rparr>]"
      using own by (simp add: lookup_saveEmailMapping i)
    have same: "map email (lookup (snd (saveEmailMapping now d e u stored)) d)
        = map email (lookup stored d)"
      unfolding u using bound by (simp add: map_update list_update_same_conv)
    have t: "fst (saveEmailMapping now d e u stored) = True"
      using own by (simp add: fst_saveEmailMapping)
    show ?thesis using t same bound at first u by blast
  qed
  show ?thesis using ins upd by blast
qed

text \<open>
  The amended C3 at the store \<open>five_touched\<close>: the new email \<open>f@x.com\<close> evicts the last
  record, and a repeated login of \<open>a@x.com\<close>, the last record, leaves the order of the
  emails as it was.
\<close>

theorem saveEmailMapping_sixth_witness:
  "length (lookup five_touched ''example.com'') = 5
   \<and> ''f@x.com'' \<notin> email ` set (lookup five_touched ''example.com'')
   \<and> ''a@x.com'' \<in> email ` set (lookup five_touched ''example.com'')
   \<and> lookup (snd (saveEmailMapping 8 ''example.com'' ''f@x.com'' ''u'' five_touched))
        ''example.com''
       = \<lparr>email = ''f@x.com'', apiUrl = ''u'', timestamp = 8, count = 1, description = None\<rparr>
           # take 4 (lookup five_touched ''example.com'')
   \<and> length (lookup (snd (saveEmailMapping 8 ''example.com'' ''f@x.com'' ''u'' five_touched))
        ''example.com'') = 5
   \<and> map email
        (lookup (snd (saveEmailMapping 8 ''example.com'' ''a@x.com'' ''u'' five_touched))
           ''example.com'')
       = map email (lookup five_touched ''example.com'')"
proof -
  have l: "length (lookup five_touched ''example.com'') = 5" by code_simp
  have "''f@x.com'' \<notin> set (map email (lookup five_touched ''example.com''))" by code_simp
  then have n: "''f@x.com'' \<notin> email ` set (lookup five_touched ''example.com'')" by simp
  have "''a@x.com'' \<in> set (map email (lookup five_touched ''example.com''))" by code_simp
  then have o: "''a@x.com'' \<in> email ` set (lookup five_touched ''example.com'')" by simp
  show ?thesis
    using l n o
      saveEmailMapping_sixth [of five_touched "''example.com''" "''f@x.com''" 8 "''u''"]
      saveEmailMapping_sixth [of five_touched "''example.com''" "''a@x.com''" 8 "''u''"]
    by simp
qed

text \<open>
  C4 fails on \<open>storeEmailMapping\<close> of background.ts: the second call with the same email
  raises the count in the copy it read and does not write the copy back, so the stored
  record keeps count 1. \<open>saveEmailMapping\<close> of storage.ts writes the count 2.
\<close>

theorem storeEmailMapping_twice:
  "map count
     (lookup
        (persisted (storeEmailMapping 2 ''example.com'' ''a@x.com'' ''https://example.com/login''
           (persisted (storeEmailMapping 1 ''example.com'' ''a@x.com''
              ''https://example.com/login'' []))))
        ''example.com'') = [1]
   \<and> map count
     (lookup
        (working_copy (storeEmailMapping 2 ''example.com'' ''a@x.com''
           ''https://example.com/login''
           (persisted (storeEmailMapping 1 ''example.com'' ''a@x.com''
              ''https://example.com/login'' []))))
        ''example.com'') = [2]
   \<and> map count
     (lookup
        (snd (saveEmailMapping 2 ''example.com'' ''a@x.com'' ''https://example.com/login''
           (snd (saveEmailMapping 1 ''example.com'' ''a@x.com''
              ''https://example.com/login'' []))))
        ''example.com'') = [2]"
  by (intro conjI; code_simp)

text \<open>
  C5 fails on \<open>EDIT_EMAIL\<close>: renaming \<open>a@x.com\<close> to \<open>b@x.com\<close> in a list that already
  holds \<open>b@x.com\<close> is answered with success and leaves two records with the same email.
  \<open>ADD_EMAIL\<close> refuses the same email.
\<close>

theorem EDIT_EMAIL_duplicates:
  "distinct (map email (lookup two_emails ''example.com''))
   \<and> fst (EDIT_EMAIL 3 ''example.com'' ''a@x.com'' ''b@x.com'' None two_emails) = Inr ok
   \<and> success ok
   \<and> map email
        (lookup (snd (EDIT_EMAIL 3 ''example.com'' ''a@x.com'' ''b@x.com'' None two_emails))
           ''example.com'')
       = [''b@x.com'', ''b@x.com'']
   \<and> fst (ADD_EMAIL 3 ''example.com'' ''b@x.com'' two_emails)
       = Inr (failed ''Email already exists for this domain'')
   \<and> success (failed ''Email already exists for this domain'') = False"
  by (intro conjI; code_simp)

text \<open>
  C6, as stated, fails for the sync merge: \<open>smartMerge\<close> appends every local record whose
  email the remote list lacks and never truncates. Two stores with six records each for
  a domain, within the cap of 10 (and reachable with the background handlers), merge to
  a list of twelve records.
\<close>

theorem smartMerge_exceeds_cap:
  "capped 10 six_local \<and> capped 10 six_remote
   \<and> smartMerge six_local six_remote LATEST_WINS = Inr twelve_merged
   \<and> length (lookup twelve_merged ''example.com'') = 12
   \<and> \<not> capped 10 twelve_merged"
  by (intro conjI; code_simp)

text \<open>
  C6, amended: the upsert and manual-add operations keep every list of the store within
  a cap that is at least the cap of their call site, 5 for \<open>saveEmailMapping\<close> and 10 for
  \<open>storeEmailMapping\<close>, \<open>LOGIN_DETECTED\<close> and \<open>ADD_EMAIL\<close>; for a domain that is not the
  name of a property inherited from \<open>Object.prototype\<close>, a new email leaves the first 5
  (or 10) records of the list with the new record put in front, so that overflow is
  evicted from the tail. The sync merge does not truncate: when no domain of the local
  store is such a name, the merge returns a store in which the list of a domain has the
  emails of the remote list at their positions, followed by the emails of the local list
  that the remote list lacks, each once and in their local order.
\<close>

theorem cap_preserved:
  "(capped n stored \<and> 5 \<le> n \<longrightarrow> capped n (snd (saveEmailMapping now d e u stored)))
   \<and> (capped n stored \<and> 10 \<le> n \<longrightarrow>
        capped n (persisted (storeEmailMapping now d e u stored))
        \<and> capped n (snd (LOGIN_DETECTED e d now u stored))
        \<and> capped n (snd (ADD_EMAIL now d e stored)))
   \<and> (d \<notin> set inherited_names \<and> e \<notin> email ` set (lookup stored d) \<longrightarrow>
        lookup (snd (saveEmailMapping now d e u stored)) d
          = take 5 (\<lparr>email = e, apiUrl = u, timestamp = now, count = 1, description = None\<rparr>
                     # lookup stored d)
        \<and> lookup (persisted (storeEmailMapping now d e u stored)) d
          = take 10 (\<lparr>email = e, apiUrl = u, timestamp = now, count = 1, description = None\<rparr>
                      # lookup stored d)
        \<and> lookup (snd (LOGIN_DETECTED e d now u stored)) d
          = take 10 (\<lparr>email = e, apiUrl = u, timestamp = now, count = 1, description = None\<rparr>
                      # lookup stored d)
        \<and> lookup (snd (ADD_EMAIL now d e stored)) d
          = take 10 (\<lparr>email = e, apiUrl = ''manual://'' @ d, timestamp = now, count = 1,
                       description = None\<rparr> # lookup stored d))
   \<and> (set (map fst localData) \<inter> set inherited_names = {} \<longrightarrow>
        (\<exists>merged. smartMerge localData remoteData s = Inr merged
           \<and> map email (lookup merged d)
               = map email (lookup remoteData d)
                   @ rev (remdups (rev (filter (\<lambda>x. x \<notin> email ` set (lookup remoteData d))
                                          (map email (lookup localData d)))))))"
proof -
  have new: "findIndex (\<lambda>entry. email entry = e) (lookup stored d) = None"
    if "e \<notin> email ` set (lookup stored d)"
  proof -
    have "\<forall>x\<in>set (lookup stored d). \<not> email x = e" using that by (metis image_eqI)
    then show ?thesis by (simp add: findIndex_None)
  qed
  have own: "get_property stored d \<noteq> Inherited" if "d \<notin> set inherited_names"
    using that by (simp add: get_property_Inherited)
  have caps: "(capped n stored \<and> 5 \<le> n \<longrightarrow> capped n (snd (saveEmailMapping now d e u stored)))
   \<and> (capped n stored \<and> 10 \<le> n \<longrightarrow>
        capped n (persisted (storeEmailMapping now d e u stored))
        \<and> capped n (snd (LOGIN_DETECTED e d now u stored))
        \<and> capped n (snd (ADD_EMAIL now d e stored)))"
    using capped_saveEmailMapping [of n stored now d e u]
      capped_storeEmailMapping [of n stored now d e u]
      capped_LOGIN_DETECTED [of n stored e d now u]
      capped_ADD_EMAIL [of n stored now d e]
    by blast
  have ins: "lookup (snd (saveEmailMapping now d e u stored)) d
          = take 5 (\<lparr>email = e, apiUrl = u, timestamp = now, count = 1, description = None\<rparr>
                     # lookup stored d)
        \<and> lookup (persisted (storeEmailMapping now d e u stored)) d
          = take 10 (\<lparr>email = e, apiUrl = u, timestamp = now, count = 1, description = None\<rparr>
                      # lookup stored d)
        \<and> lookup (snd (LOGIN_DETECTED e d now u stored)) d
          = take 10 (\<lparr>email = e, apiUrl = u, timestamp = now, count = 1, description = None\<rparr>
                      # lookup stored d)
        \<and> lookup (snd (ADD_EMAIL now d e stored)) d
          = take 10 (\<lparr>email = e, apiUrl = ''manual://'' @ d, timestamp = now, count = 1,
                       description = None\<rparr> # lookup stored d)"
    if "d \<notin> set inherited_names" "e \<notin> email ` set (lookup stored d)"
    using own [OF that(1)] new [OF that(2)]
    by (simp add: lookup_saveEmailMapping lookup_storeEmailMapping lookup_LOGIN_DETECTED
        lookup_ADD_EMAIL)
  have mrg: "\<exists>merged. smartMerge localData remoteData s = Inr merged
           \<and> map email (lookup merged d)
               = map email (lookup remoteData d)
                   @ rev (remdups (rev (filter (\<lambda>x. x \<notin> email ` set (lookup remoteData d))
                                          (map email (lookup localData d)))))"
    if k: "set (map fst localData) \<inter> set inherited_names = {}"
  proof -
    obtain merged where "smartMerge localData remoteData s = Inr merged"
      "\<forall>d. lookup merged d = foldl (merge_record s) (lookup remoteData d) (lookup localData d)"
      using smartMerge_ok [OF k, of remoteData s] by blast
    then show ?thesis by (simp add: map_email_foldl_merge_record)
  qed
  show ?thesis using caps ins mrg by blast
qed

text \<open>
  The amended C6 at the store \<open>five_touched\<close> with the cap 10 and the new email
  \<open>f@x.com\<close>, and at the merge of \<open>six_local\<close> into \<open>six_remote\<close>.
\<close>

theorem cap_preserved_witness:
  "capped 10 five_touched
   \<and> ''example.com'' \<notin> set inherited_names
   \<and> ''f@x.com'' \<notin> email ` set (lookup five_touched ''example.com'')
   \<and> set (map fst six_local) \<inter> set inherited_names = {}
   \<and> capped 10 (snd (saveEmailMapping 8 ''example.com'' ''f@x.com'' ''u'' five_touched))
   \<and> capped 10 (persisted (storeEmailMapping 8 ''example.com'' ''f@x.com'' ''u'' five_touched))
   \<and> capped 10 (snd (LOGIN_DETECTED ''f@x.com'' ''example.com'' 8 ''u'' five_touched))
   \<and> capped 10 (snd (ADD_EMAIL 8 ''example.com'' ''f@x.com'' five_touched))
   \<and> lookup (snd (saveEmailMapping 8 ''example.com'' ''f@x.com'' ''u'' five_touched))
        ''example.com''
       = take 5 (\<lparr>email = ''f@x.com'', apiUrl = ''u'', timestamp = 8, count = 1,
                   description = None\<rparr> # lookup five_touched ''example.com'')
   \<and> (\<exists>merged. smartMerge six_local six_remote LATEST_WINS = Inr merged
        \<and> map email (lookup merged ''example.com'')
            = map email (lookup six_remote ''example.com'')
                @ rev (remdups (rev (filter
                    (\<lambda>x. x \<notin> email ` set (lookup six_remote ''example.com''))
                    (map email (lookup six_local ''example.com''))))))"
proof -
  have c: "capped 10 five_touched" by code_simp
  have i: "''example.com'' \<notin> set inherited_names" by (simp add: inherited_names_def)
  have "''f@x.com'' \<notin> set (map email (lookup five_touched ''example.com''))" by code_simp
  then have n: "''f@x.com'' \<notin> email ` set (lookup five_touched ''example.com'')" by simp
  have k: "set (map fst six_local) \<inter> set inherited_names = {}"
    by (simp add: six_local_def inherited_names_def)
  show ?thesis
    using c i n k
      cap_preserved [of 10 five_touched 8 "''example.com''" "''f@x.com''" "''u''"
        six_local six_remote LATEST_WINS]
    by simp
qed

text \<open>
  C7, as stated, fails in the returned boolean: \<open>DELETE_EMAIL\<close> answers with success
  whenever the domain is in the store, also when no record has the email. The store
  \<open>one_email\<close> holds \<open>b@x.com\<close> only; deleting \<open>a@x.com\<close> succeeds and changes nothing.
\<close>

theorem DELETE_EMAIL_success_without_record:
  "''a@x.com'' \<notin> set (map email (lookup one_email ''example.com''))
   \<and> fst (DELETE_EMAIL ''example.com'' ''a@x.com'' one_email) = Inr ok
   \<and> success ok = True
   \<and> snd (DELETE_EMAIL ''example.com'' ''a@x.com'' one_email) = one_email"
  by (intro conjI; code_simp)

text \<open>
  C7, amended: for a domain that is in the store, \<open>remove(domain, email)\<close> removes every
  record of the domain with that email and answers true, whether or not a record was
  found, and it deletes the domain key when the list becomes empty, so that
  \<open>statistics()\<close> then reports one domain fewer, and zero domains when the domain was
  the only one. For a domain that is not in the store and is not the name of a property
  inherited from \<open>Object.prototype\<close>, it answers false and leaves the store unchanged.
  So for every domain that is in the store or is no such name, a reply is sent and it is
  true if and only if the domain was in the store.
\<close>

theorem DELETE_EMAIL_contract:
  "(map_of stored d = Some entries \<longrightarrow>
      fst (DELETE_EMAIL d e stored) = Inr ok
      \<and> map_of (snd (DELETE_EMAIL d e stored)) =
          (map_of stored)
            (d := (if filter (\<lambda>entry. email entry \<noteq> e) entries = [] then None
                   else Some (filter (\<lambda>entry. email entry \<noteq> e) entries))))
   \<and> (map_of stored d = None \<and> d \<notin> set inherited_names \<longrightarrow>
        DELETE_EMAIL d e stored = (Inr (failed ''Domain not found''), stored))
   \<and> (map_of stored d \<noteq> None \<or> d \<notin> set inherited_names \<longrightarrow>
        (\<exists>reply. fst (DELETE_EMAIL d e stored) = Inr reply
           \<and> (success reply \<longleftrightarrow> map_of stored d \<noteq> None)))
   \<and> (map_of stored d = Some entries \<and> filter (\<lambda>entry. email entry \<noteq> e) entries = [] \<longrightarrow>
        Suc (totalDomains (getStorageStats (snd (DELETE_EMAIL d e stored))))
          = totalDomains (getStorageStats stored))
   \<and> (map_of stored d = Some entries \<and> filter (\<lambda>entry. email entry \<noteq> e) entries = []
        \<and> dom (map_of stored) = {d} \<longrightarrow>
        totalDomains (getStorageStats (snd (DELETE_EMAIL d e stored))) = 0)"
proof -
  have p: "fst (DELETE_EMAIL d e stored) = Inr ok
      \<and> map_of (snd (DELETE_EMAIL d e stored)) =
          (map_of stored)
            (d := (if filter (\<lambda>entry. email entry \<noteq> e) entries = [] then None
                   else Some (filter (\<lambda>entry. email entry \<noteq> e) entries)))"
    if "map_of stored d = Some entries"
    by (rule DELETE_EMAIL_present [OF that])
  have a: "DELETE_EMAIL d e stored = (Inr (failed ''Domain not found''), stored)"
    if "map_of stored d = None" "d \<notin> set inherited_names"
    by (rule DELETE_EMAIL_absent [OF that])
  have r: "\<exists>reply. fst (DELETE_EMAIL d e stored) = Inr reply
           \<and> (success reply \<longleftrightarrow> map_of stored d \<noteq> None)"
    if "map_of stored d \<noteq> None \<or> d \<notin> set inherited_names"
  proof (cases "map_of stored d")
    case None
    with that have "d \<notin> set inherited_names" by simp
    then have "fst (DELETE_EMAIL d e stored) = Inr (failed ''Domain not found'')"
      using None by (simp add: DELETE_EMAIL_absent)
    then show ?thesis using None by (simp add: failed_def)
  next
    case (Some es)
    then have "fst (DELETE_EMAIL d e stored) = Inr ok"
      using DELETE_EMAIL_present [OF Some, of e] by simp
    then show ?thesis using Some by (simp add: ok_def)
  qed
  have s: "Suc (totalDomains (getStorageStats (snd (DELETE_EMAIL d e stored))))
          = totalDomains (getStorageStats stored)"
    if p: "map_of stored d = Some entries"
      and q: "filter (\<lambda>entry. email entry \<noteq> e) entries = []"
  proof -
    have eq: "dom (map_of (snd (DELETE_EMAIL d e stored))) = dom (map_of stored) - {d}"
      using DELETE_EMAIL_present [OF p, of e] q by simp
    have mem: "d \<in> dom (map_of stored)" using p by auto
    have fin: "finite (dom (map_of stored))" by (rule finite_dom_map_of)
    have "Suc (card (dom (map_of stored) - {d})) = card (dom (map_of stored))"
      by (rule card_Suc_Diff1 [OF fin mem])
    then show ?thesis by (simp add: totalDomains_card eq)
  qed
  have z: "totalDomains (getStorageStats (snd (DELETE_EMAIL d e stored))) = 0"
    if p: "map_of stored d = Some entries"
      and q: "filter (\<lambda>entry. email entry \<noteq> e) entries = []"
      and o: "dom (map_of stored) = {d}"
  proof -
    have "totalDomains (getStorageStats stored) = 1" using o by (simp add: totalDomains_card)
    then show ?thesis using s [OF p q] by simp
  qed
  show ?thesis using p a r s z by blast
qed

text \<open>
  The amended C7 at the store \<open>one_email\<close>: removing its only record leaves no domain,
  and removing from the domain \<open>other.org\<close>, which the store lacks, is answered with
  false.
\<close>

theorem DELETE_EMAIL_contract_witness:
  "map_of one_email ''example.com'' = Some [example_record ''b@x.com'' 1]
   \<and> filter (\<lambda>entry. email entry \<noteq> ''b@x.com'') [example_record ''b@x.com'' 1] = []
   \<and> dom (map_of one_email) = {''example.com''}
   \<and> map_of one_email ''other.org'' = None
   \<and> ''other.org'' \<notin> set inherited_names
   \<and> fst (DELETE_EMAIL ''example.com'' ''b@x.com'' one_email) = Inr ok
   \<and> map_of (snd (DELETE_EMAIL ''example.com'' ''b@x.com'' one_email)) ''example.com'' = None
   \<and> totalDomains (getStorageStats (snd (DELETE_EMAIL ''example.com'' ''b@x.com'' one_email)))
       = 0
   \<and> DELETE_EMAIL ''other.org'' ''b@x.com'' one_email
       = (Inr (failed ''Domain not found''), one_email)"
proof -
  have h: "map_of one_email ''example.com'' = Some [example_record ''b@x.com'' 1]"
    "filter (\<lambda>entry. email entry \<noteq> ''b@x.com'') [example_record ''b@x.com'' 1] = []"
    "dom (map_of one_email) = {''example.com''}"
    "map_of one_email ''other.org'' = None"
    "''other.org'' \<notin> set inherited_names"
    by (simp_all add: one_email_def example_record_def inherited_names_def)
  show ?thesis
    using h
      DELETE_EMAIL_contract [of one_email "''example.com''"
        "[example_record ''b@x.com'' 1]" "''b@x.com''"]
      DELETE_EMAIL_contract [of one_email "''other.org''" "[]" "''b@x.com''"]
    by simp
qed

end
